theory Spec2Isabelle
  imports Main "HOL-Library.AList"
begin

section \<open>Python strings\<close>

text \<open>
  Strings are lists of ASCII characters. Non-ASCII white space and non-ASCII digits,
  which Python's \<open>strip\<close> and \<open>int\<close> also accept, are outside the model. The
  interpreter is CPython 3.11.
\<close>

datatype py_error = KeyError | ValueError | IndexError | OverflowError | OSError

definition NL :: char where
  "NL = CHR 0x0A"

text \<open>\<open>s.split(c)\<close> for a one-character separator: the result is never empty.\<close>

fun split_on :: "char \<Rightarrow> string \<Rightarrow> string list" where
  "split_on c [] = [[]]"
| "split_on c (x # xs) =
     (if x = c then [] # split_on c xs
      else (case split_on c xs of [] \<Rightarrow> [[x]] | y # ys \<Rightarrow> (x # y) # ys))"

text \<open>The characters \<open>str.isspace\<close> accepts below 128.\<close>

definition py_space :: "char \<Rightarrow> bool" where
  "py_space c = (c \<in> set [CHR 0x09, CHR 0x0A, CHR 0x0B, CHR 0x0C, CHR 0x0D,
                            CHR 0x1C, CHR 0x1D, CHR 0x1E, CHR 0x1F, CHR 0x20])"

definition strip :: "string \<Rightarrow> string" where
  "strip s = rev (dropWhile py_space (rev (dropWhile py_space s)))"

text \<open>A string is truthy when it is neither \<open>None\<close> nor empty.\<close>

definition truthy :: "string option \<Rightarrow> bool" where
  "truthy s = (case s of None \<Rightarrow> False | Some t \<Rightarrow> t \<noteq> [])"

section \<open>Work packages\<close>

text \<open>
  A link of the raw record: \<open>href\<close> is \<open>None\<close> for JSON null, \<open>title\<close> is
  \<open>None\<close> when the key is missing. In the raw record, \<open>el_raw\<close> and \<open>dueDate\<close> are
  \<open>None\<close> for JSON null.
\<close>

record link =
  href :: "string option"
  title :: "string option"

record raw_wp =
  el_id :: int
  el_subject :: string
  el_raw :: "string option"
  el_html :: string
  el_parent :: link
  el_assignee :: link
  dueDate :: "string option"
  createdAt :: string
  updatedAt :: string

record wp =
  wp_id :: int
  subject :: string
  description :: string
  parent :: string
  assignee :: string
  due_date :: string
  due_hour :: string
  updated_at :: string

text \<open>The test that guards the \<open>pass\<close> branch of \<open>parse_workpackages\<close>.\<close>

definition not_synchronized :: "raw_wp \<Rightarrow> bool" where
  "not_synchronized elem =
     (case el_raw elem of None \<Rightarrow> True
      | Some raw \<Rightarrow> hd (split_on NL raw) = ''!!!'')"

definition parent_of :: "raw_wp \<Rightarrow> py_error + string" where
  "parent_of elem =
     (if truthy (href (el_parent elem)) then
        (case title (el_parent elem) of None \<Rightarrow> Inl KeyError
         | Some t \<Rightarrow> Inr (last (split_on CHR ''/'' (the (href (el_parent elem)))) @ '':'' @ t))
      else Inr ''No parent'')"

definition assignee_of :: "raw_wp \<Rightarrow> py_error + string" where
  "assignee_of elem =
     (if truthy (href (el_assignee elem)) then
        (case title (el_assignee elem) of None \<Rightarrow> Inl KeyError | Some t \<Rightarrow> Inr t)
      else Inr ''Not assigned to anyone'')"

definition due_of :: "raw_wp \<Rightarrow> string \<times> string" where
  "due_of elem =
     (if truthy (dueDate elem) then
        (the (dueDate elem),
         strip (last (split_on CHR ''='' (last (split_on NL (the (el_raw elem)))))))
      else
        (hd (split_on CHR ''T'' (createdAt elem)),
         butlast (last (split_on CHR ''T'' (createdAt elem)))))"

text \<open>The body of the \<open>try\<close> block: the record built for one element, or the error raised.\<close>

definition parse_wp :: "raw_wp \<Rightarrow> py_error + wp" where
  "parse_wp elem =
     (case parent_of elem of Inl e \<Rightarrow> Inl e
      | Inr p \<Rightarrow>
     (case assignee_of elem of Inl e \<Rightarrow> Inl e
      | Inr a \<Rightarrow>
        Inr \<lparr>wp_id = el_id elem, subject = strip (el_subject elem),
             description = el_html elem, parent = p, assignee = a,
             due_date = fst (due_of elem), due_hour = snd (due_of elem),
             updated_at = updatedAt elem\<rparr>))"

type_synonym wp_dict = "(int \<times> wp) list"
type_synonym wp_err = "(raw_wp \<times> py_error) list"

text \<open>One iteration of the loop of \<open>parse_workpackages\<close> on the pair (parsed_wps, err).\<close>

definition parse_wp_step :: "raw_wp \<Rightarrow> wp_dict \<times> wp_err \<Rightarrow> wp_dict \<times> wp_err" where
  "parse_wp_step elem acc =
     (if not_synchronized elem then acc
      else (case parse_wp elem of
              Inr tmp \<Rightarrow> (AList.update (el_id elem) tmp (fst acc), snd acc)
            | Inl error \<Rightarrow> (fst acc, snd acc @ [(elem, error)])))"

fun parse_wp_loop :: "raw_wp list \<Rightarrow> wp_dict \<times> wp_err \<Rightarrow> wp_dict \<times> wp_err" where
  "parse_wp_loop [] acc = acc"
| "parse_wp_loop (elem # rest) acc = parse_wp_loop rest (parse_wp_step elem acc)"

definition parse_workpackages :: "raw_wp list \<Rightarrow> wp_dict \<times> wp_err" where
  "parse_workpackages elements = parse_wp_loop elements ([], [])"

section \<open>Integers as text\<close>

definition is_digit :: "char \<Rightarrow> bool" where
  "is_digit c = (c \<in> set ''0123456789'')"

definition digit_val :: "char \<Rightarrow> nat" where
  "digit_val c = of_char c - 48"

definition digit_char :: "nat \<Rightarrow> char" where
  "digit_char d = ''0123456789'' ! d"

text \<open>The decimal text of a natural number and of an integer.\<close>

fun str_nat :: "nat \<Rightarrow> string" where
  "str_nat n = (if n < 10 then [digit_char n] else str_nat (n div 10) @ [digit_char (n mod 10)])"

declare str_nat.simps [simp del]

definition str_int :: "int \<Rightarrow> string" where
  "str_int i = (if i < 0 then CHR ''-'' # str_nat (nat (- i)) else str_nat (nat i))"

text \<open>
  The longest decimal text that \<open>int\<close> reads and \<open>str\<close> writes: with more digits,
  the sign and the underscores not counted, both raise ValueError.
\<close>

definition max_str_digits :: nat where
  "max_str_digits = 4300"

text \<open>\<open>str(i)\<close> of an integer.\<close>

definition py_str :: "int \<Rightarrow> py_error + string" where
  "py_str i =
     (if max_str_digits < length (str_nat (nat \<bar>i\<bar>)) then Inl ValueError
      else Inr (str_int i))"

definition digits_value :: "string \<Rightarrow> nat" where
  "digits_value ds = foldl (\<lambda>a c. 10 * a + digit_val c) 0 ds"

text \<open>
  The digit part of an integer literal: decimal digits in groups separated by single
  underscores, no group empty, and no more digits than \<open>max_str_digits\<close>.
\<close>

definition parse_nat :: "string \<Rightarrow> nat option" where
  "parse_nat s =
     (let groups = split_on CHR ''_'' s in
      if list_all (\<lambda>g. g \<noteq> [] \<and> list_all is_digit g) groups
         \<and> length (concat groups) \<le> max_str_digits
      then Some (digits_value (concat groups)) else None)"

text \<open>
  The characters \<open>int\<close> skips around a number are those of C's \<open>isspace\<close>: unlike
  \<open>strip\<close>, it does not skip the separators 0x1C to 0x1F.
\<close>

definition int_space :: "char \<Rightarrow> bool" where
  "int_space c = (c \<in> set [CHR 0x09, CHR 0x0A, CHR 0x0B, CHR 0x0C, CHR 0x0D, CHR 0x20])"

definition int_strip :: "string \<Rightarrow> string" where
  "int_strip s = rev (dropWhile int_space (rev (dropWhile int_space s)))"

text \<open>\<open>int(s)\<close>: white space around, an optional sign, then the digit part.\<close>

definition py_int :: "string \<Rightarrow> py_error + int" where
  "py_int s =
     (case int_strip s of
        [] \<Rightarrow> Inl ValueError
      | c # cs \<Rightarrow>
          if c = CHR ''-'' then
            (case parse_nat cs of None \<Rightarrow> Inl ValueError | Some n \<Rightarrow> Inr (- int n))
          else if c = CHR ''+'' then
            (case parse_nat cs of None \<Rightarrow> Inl ValueError | Some n \<Rightarrow> Inr (int n))
          else
            (case parse_nat (c # cs) of None \<Rightarrow> Inl ValueError | Some n \<Rightarrow> Inr (int n)))"

text \<open>\<open>[int(x) for x in xs]\<close>: the first element that fails raises.\<close>

fun ints_of :: "string list \<Rightarrow> py_error + int list" where
  "ints_of [] = Inr []"
| "ints_of (x # xs) =
     (case py_int x of Inl e \<Rightarrow> Inl e
      | Inr i \<Rightarrow> (case ints_of xs of Inl e \<Rightarrow> Inl e | Inr is \<Rightarrow> Inr (i # is)))"

section \<open>Dates and times\<close>

record datetime =
  year :: int
  month :: int
  day :: int
  hour :: int
  minute :: int
  second :: int

definition is_leap :: "int \<Rightarrow> bool" where
  "is_leap y = (y mod 4 = 0 \<and> (y mod 100 \<noteq> 0 \<or> y mod 400 = 0))"

definition days_in_month :: "int \<Rightarrow> int \<Rightarrow> int" where
  "days_in_month y m =
     (if m = 2 then (if is_leap y then 29 else 28)
      else if m \<in> {4, 6, 9, 11} then 30 else 31)"

definition c_int :: "int \<Rightarrow> bool" where
  "c_int i = (- 2147483648 \<le> i \<and> i \<le> 2147483647)"

text \<open>
  The constructor \<open>datetime(y, m, d, H, M, S)\<close>: an argument that does not fit a C int
  raises OverflowError, a field out of range raises ValueError.
\<close>

definition mk_datetime :: "int \<Rightarrow> int \<Rightarrow> int \<Rightarrow> int \<Rightarrow> int \<Rightarrow> int \<Rightarrow> py_error + datetime" where
  "mk_datetime y m d H M S =
     (if \<not> list_all c_int [y, m, d, H, M, S] then Inl OverflowError
      else if y < 1 \<or> 9999 < y \<or> m < 1 \<or> 12 < m \<or> d < 1 \<or> days_in_month y m < d
        then Inl ValueError
      else if H < 0 \<or> 23 < H \<or> M < 0 \<or> 59 < M \<or> S < 0 \<or> 59 < S then Inl ValueError
      else Inr \<lparr>year = y, month = m, day = d, hour = H, minute = M, second = S\<rparr>)"

definition str_to_date :: "string \<Rightarrow> string \<Rightarrow> py_error + datetime" where
  "str_to_date date hr =
     (case ints_of (split_on CHR ''-'' date) of Inl e \<Rightarrow> Inl e
      | Inr dd \<Rightarrow>
     (case ints_of (split_on CHR '':'' hr) of Inl e \<Rightarrow> Inl e
      | Inr dh \<Rightarrow>
        if length dd < 3 \<or> length dh < 3 then Inl IndexError
        else mk_datetime (dd ! 0) (dd ! 1) (dd ! 2) (dh ! 0) (dh ! 1) (dh ! 2)))"

text \<open>\<open>t + timedelta(hours=1)\<close>: past the last hour of year 9999 it raises OverflowError.\<close>

definition add_hour :: "datetime \<Rightarrow> py_error + datetime" where
  "add_hour t =
     (if hour t < 23 then Inr (t\<lparr>hour := hour t + 1\<rparr>)
      else if day t < days_in_month (year t) (month t)
        then Inr (t\<lparr>day := day t + 1, hour := 0\<rparr>)
      else if month t < 12 then Inr (t\<lparr>month := month t + 1, day := 1, hour := 0\<rparr>)
      else if year t < 9999 then Inr (t\<lparr>year := year t + 1, month := 1, day := 1, hour := 0\<rparr>)
      else Inl OverflowError)"

text \<open>\<open>%0wd\<close> of a number that is not negative.\<close>

definition zpad :: "nat \<Rightarrow> int \<Rightarrow> string" where
  "zpad w i = replicate (w - length (str_nat (nat i))) CHR ''0'' @ str_nat (nat i)"

text \<open>The date and the time of day as \<open>isoformat\<close> prints them, without microseconds.\<close>

definition fmt_date :: "datetime \<Rightarrow> string" where
  "fmt_date t = zpad 4 (year t) @ ''-'' @ zpad 2 (month t) @ ''-'' @ zpad 2 (day t)"

definition fmt_time :: "datetime \<Rightarrow> string" where
  "fmt_time t = zpad 2 (hour t) @ '':'' @ zpad 2 (minute t) @ '':'' @ zpad 2 (second t)"

text \<open>
  An offset from UTC, in seconds, as \<open>isoformat\<close> prints it: sign, hours and
  minutes, and the seconds when there are any.
\<close>

definition fmt_offset :: "int \<Rightarrow> string" where
  "fmt_offset off =
     (if off < 0 then ''-'' else ''+'') @ zpad 2 (\<bar>off\<bar> div 3600) @ '':''
     @ zpad 2 (\<bar>off\<bar> mod 3600 div 60)
     @ (if \<bar>off\<bar> mod 60 = 0 then [] else '':'' @ zpad 2 (\<bar>off\<bar> mod 60))"

text \<open>\<open>isoformat\<close> of an aware time: its fields and its offset from UTC.\<close>

definition isoformat :: "datetime \<times> int \<Rightarrow> string" where
  "isoformat a = fmt_date (fst a) @ ''T'' @ fmt_time (fst a) @ fmt_offset (snd a)"

text \<open>
  \<open>t.astimezone()\<close> of a naive time reads \<open>t\<close> as a time of the machine's local
  zone and returns the aware time the zone database gives for it, its fields and its
  offset from UTC in seconds: the fields are not always those of \<open>t\<close> (a time that a
  change of offset skips is moved), and near the first and the last representable
  day the call raises. The zone database is not part of the program: the model takes
  the function as a parameter.
\<close>

type_synonym zone = "datetime \<Rightarrow> py_error + datetime \<times> int"

text \<open>\<open>t.astimezone().isoformat()\<close>.\<close>

definition local_iso :: "zone \<Rightarrow> datetime \<Rightarrow> py_error + string" where
  "local_iso tz t = (case tz t of Inl e \<Rightarrow> Inl e | Inr a \<Rightarrow> Inr (isoformat a))"

section \<open>Event payload\<close>

record event =
  summary :: string
  body :: string
  start_dateTime :: string
  end_dateTime :: string
  useDefault :: bool
  overrides :: "(string \<times> int) list"

text \<open>
  \<open>wp_to_event\<close>; the field \<open>body\<close> is the payload's key \<open>description\<close>, and \<open>tz\<close>
  is the local zone of the machine. The cases follow the order in which Python
  evaluates the function: the start, the finish, and then the entries of the
  dictionary from the first to the last.
\<close>

definition wp_to_event :: "zone \<Rightarrow> wp \<Rightarrow> py_error + event" where
  "wp_to_event tz w =
     (case str_to_date (due_date w) (due_hour w) of Inl e \<Rightarrow> Inl e
      | Inr event_start \<Rightarrow>
     (case add_hour event_start of Inl e \<Rightarrow> Inl e
      | Inr event_finish \<Rightarrow>
     (case py_str (wp_id w) of Inl e \<Rightarrow> Inl e
      | Inr id_text \<Rightarrow>
     (case local_iso tz event_start of Inl e \<Rightarrow> Inl e
      | Inr start_text \<Rightarrow>
     (case local_iso tz event_finish of Inl e \<Rightarrow> Inl e
      | Inr end_text \<Rightarrow>
        Inr \<lparr>summary = id_text @ '':'' @ subject w,
             body = description w @ ''Parent='' @ parent w @ [NL]
                    @ assignee w @ [NL] @ updated_at w,
             start_dateTime = start_text,
             end_dateTime = end_text,
             useDefault = False,
             overrides = [(''popup'', 24 * 60), (''popup'', 30)]\<rparr>)))))"

section \<open>Calendar events\<close>

text \<open>A key of the raw event that is missing is \<open>None\<close>.\<close>

record raw_event =
  re_id :: "string option"
  re_summary :: "string option"
  re_description :: "string option"
  re_end :: "string option"

datatype pyval = PyInt int | PyStr string

record parsed_event =
  event_id :: string
  ev_wp_id :: pyval
  ev_subject :: string
  ev_assignee :: string
  ev_updated_at :: string
  ev_due_date :: string
  ev_due_hour :: string

definition key_of :: "'a option \<Rightarrow> py_error + 'a" where
  "key_of v = (case v of None \<Rightarrow> Inl KeyError | Some x \<Rightarrow> Inr x)"

text \<open>
  The body of the \<open>try\<close> block of \<open>parse_events\<close>: the key and the record stored
  under it, or the error raised.
\<close>

definition parse_event :: "raw_event \<Rightarrow> py_error + (int \<times> parsed_event)" where
  "parse_event elem =
     (case key_of (re_id elem) of Inl e \<Rightarrow> Inl e | Inr eid \<Rightarrow>
     (case key_of (re_summary elem) of Inl e \<Rightarrow> Inl e | Inr smry \<Rightarrow>
     (case key_of (re_description elem) of Inl e \<Rightarrow> Inl e | Inr descr \<Rightarrow>
        if length (split_on NL descr) < 2 then Inl IndexError else
     (case key_of (re_end elem) of Inl e \<Rightarrow> Inl e | Inr dt \<Rightarrow>
        if length (split_on CHR ''T'' dt) < 2 then Inl IndexError else
     (case py_int (hd (split_on CHR '':'' smry)) of Inl e \<Rightarrow> Inl e | Inr k \<Rightarrow>
        Inr (k, \<lparr>event_id = eid,
                 ev_wp_id = PyStr (hd (split_on CHR '':'' smry)),
                 ev_subject = last (split_on CHR '':'' smry),
                 ev_assignee = split_on NL descr ! (length (split_on NL descr) - 2),
                 ev_updated_at = last (split_on NL descr),
                 ev_due_date = split_on CHR ''T'' dt ! 0,
                 ev_due_hour = split_on CHR ''T'' dt ! 1\<rparr>))))))"

type_synonym event_dict = "(int \<times> parsed_event) list"
type_synonym event_err = "(raw_event \<times> py_error) list"

definition parse_event_step ::
  "raw_event \<Rightarrow> event_dict \<times> event_err \<Rightarrow> event_dict \<times> event_err" where
  "parse_event_step elem acc =
     (case parse_event elem of
        Inr (k, tmp) \<Rightarrow> (AList.update k tmp (fst acc), snd acc)
      | Inl error \<Rightarrow> (fst acc, snd acc @ [(elem, error)]))"

fun parse_event_loop :: "raw_event list \<Rightarrow> event_dict \<times> event_err \<Rightarrow> event_dict \<times> event_err" where
  "parse_event_loop [] acc = acc"
| "parse_event_loop (elem # rest) acc = parse_event_loop rest (parse_event_step elem acc)"

definition parse_events :: "raw_event list \<Rightarrow> event_dict \<times> event_err" where
  "parse_events events = parse_event_loop events ([], [])"

text \<open>The raw event the calendar holds for a payload stored under the identifier \<open>eid\<close>.\<close>

definition stored_event :: "string \<Rightarrow> event \<Rightarrow> raw_event" where
  "stored_event eid ev =
     \<lparr>re_id = Some eid, re_summary = Some (summary ev),
      re_description = Some (body ev), re_end = Some (end_dateTime ev)\<rparr>"

section \<open>Reconciliation\<close>

text \<open>
  The calendar service, as far as the reconciler sees it: each call runs on the
  service's state and either succeeds (\<open>None\<close>) or raises an exception, of which the
  caller keeps the text (\<open>Some\<close>).
\<close>

record 's service =
  insert_event :: "event \<Rightarrow> 's \<Rightarrow> string option \<times> 's"
  delete_event :: "string \<Rightarrow> 's \<Rightarrow> string option \<times> 's"
  update_event :: "string \<Rightarrow> event \<Rightarrow> 's \<Rightarrow> string option \<times> 's"

datatype call = Insert event | Delete string | Update string event

text \<open>
  Each of the three functions returns what the Python function returns, the new state
  of the service and the calls it made, each with its outcome; \<open>Inl\<close> is an exception
  that leaves the function.
\<close>

definition to_create ::
  "zone \<Rightarrow> 's service \<Rightarrow> wp \<Rightarrow> 's
     \<Rightarrow> py_error + (string option \<times> 's \<times> (call \<times> string option) list)" where
  "to_create tz srv w s =
     (case wp_to_event tz w of Inl e \<Rightarrow> Inl e
      | Inr ev \<Rightarrow>
          (case insert_event srv ev s of (r, s') \<Rightarrow> Inr (r, s', [(Insert ev, r)])))"

definition to_delete ::
  "'s service \<Rightarrow> parsed_event \<Rightarrow> 's \<Rightarrow> string option \<times> 's \<times> (call \<times> string option) list" where
  "to_delete srv pe s =
     (case delete_event srv (event_id pe) s of
        (r, s') \<Rightarrow> (r, s', [(Delete (event_id pe), r)]))"

definition may_update ::
  "zone \<Rightarrow> 's service \<Rightarrow> wp \<Rightarrow> parsed_event \<Rightarrow> 's
     \<Rightarrow> py_error + (string option \<times> 's \<times> (call \<times> string option) list)" where
  "may_update tz srv w pe s =
     (if updated_at w \<noteq> ev_updated_at pe then
        (case wp_to_event tz w of Inl e \<Rightarrow> Inl e
         | Inr tmp \<Rightarrow>
             (case update_event srv (event_id pe) tmp s of
                (r, s') \<Rightarrow> Inr (r, s', [(Update (event_id pe) tmp, r)])))
      else Inr (None, s, []))"

text \<open>
  The state of a run of \<open>synchronize_wps\<close>: the three error lists, the state of the
  service, and the calls made so far, each tagged with the id it was made for.
\<close>

record 's run =
  to_create_err :: "string option list"
  to_delete_err :: "string option list"
  may_update_err :: "string option list"
  srv_state :: 's
  calls :: "(int \<times> call \<times> string option) list"

definition tag :: "int \<Rightarrow> (call \<times> string option) list \<Rightarrow> (int \<times> call \<times> string option) list" where
  "tag k cs = map (\<lambda>c. (k, c)) cs"

text \<open>The three loops; \<open>Inl\<close> carries the exception and the state of the run it left.\<close>

fun create_loop ::
  "zone \<Rightarrow> 's service \<Rightarrow> wp_dict \<Rightarrow> int list \<Rightarrow> 's run
     \<Rightarrow> (py_error \<times> 's run) + 's run" where
  "create_loop tz srv wps [] r = Inr r"
| "create_loop tz srv wps (k # ks) r =
     (case map_of wps k of None \<Rightarrow> Inl (KeyError, r)
      | Some w \<Rightarrow>
     (case to_create tz srv w (srv_state r) of Inl e \<Rightarrow> Inl (e, r)
      | Inr (err, s', cs) \<Rightarrow>
          create_loop tz srv wps ks
            (r\<lparr>to_create_err := to_create_err r @ [err], srv_state := s',
               calls := calls r @ tag k cs\<rparr>)))"

fun delete_loop ::
  "'s service \<Rightarrow> event_dict \<Rightarrow> int list \<Rightarrow> 's run \<Rightarrow> (py_error \<times> 's run) + 's run" where
  "delete_loop srv evs [] r = Inr r"
| "delete_loop srv evs (k # ks) r =
     (case map_of evs k of None \<Rightarrow> Inl (KeyError, r)
      | Some pe \<Rightarrow>
     (case to_delete srv pe (srv_state r) of
        (err, s', cs) \<Rightarrow>
          delete_loop srv evs ks
            (r\<lparr>to_delete_err := to_delete_err r @ [err], srv_state := s',
               calls := calls r @ tag k cs\<rparr>)))"

fun update_loop ::
  "zone \<Rightarrow> 's service \<Rightarrow> wp_dict \<Rightarrow> event_dict \<Rightarrow> int list \<Rightarrow> 's run
     \<Rightarrow> (py_error \<times> 's run) + 's run" where
  "update_loop tz srv wps evs [] r = Inr r"
| "update_loop tz srv wps evs (k # ks) r =
     (case map_of wps k of None \<Rightarrow> Inl (KeyError, r)
      | Some w \<Rightarrow>
     (case map_of evs k of None \<Rightarrow> Inl (KeyError, r)
      | Some pe \<Rightarrow>
     (case may_update tz srv w pe (srv_state r) of Inl e \<Rightarrow> Inl (e, r)
      | Inr (err, s', cs) \<Rightarrow>
          update_loop tz srv wps evs ks
            (r\<lparr>may_update_err := may_update_err r @ [err], srv_state := s',
               calls := calls r @ tag k cs\<rparr>))))"

definition to_create_set :: "wp_dict \<Rightarrow> event_dict \<Rightarrow> int set" where
  "to_create_set wps evs = set (map fst wps) - set (map fst evs)"

definition to_delete_set :: "wp_dict \<Rightarrow> event_dict \<Rightarrow> int set" where
  "to_delete_set wps evs = set (map fst evs) - set (map fst wps)"

definition may_update_set :: "wp_dict \<Rightarrow> event_dict \<Rightarrow> int set" where
  "may_update_set wps evs = set (map fst evs) \<inter> set (map fst wps)"

definition start_run :: "'s \<Rightarrow> 's run" where
  "start_run s = \<lparr>to_create_err = [], to_delete_err = [], may_update_err = [],
                  srv_state = s, calls = []\<rparr>"

text \<open>
  \<open>synchronize_wps\<close>. Python fixes no order for the iteration of a set: \<open>iter\<close> is
  the order in which the interpreter enumerates one. A run that returns gives the three
  sets and the final state of the run, whose first three fields are the error lists.
\<close>

definition synchronize_wps ::
  "zone \<Rightarrow> (int set \<Rightarrow> int list) \<Rightarrow> 's service \<Rightarrow> wp_dict \<Rightarrow> event_dict \<Rightarrow> 's
     \<Rightarrow> (py_error \<times> 's run) + ((int set \<times> int set \<times> int set) \<times> 's run)" where
  "synchronize_wps tz iter srv parsed_wps parsed_events s =
     (case create_loop tz srv parsed_wps (iter (to_create_set parsed_wps parsed_events))
             (start_run s) of
        Inl x \<Rightarrow> Inl x
      | Inr r1 \<Rightarrow>
     (case delete_loop srv parsed_events (iter (to_delete_set parsed_wps parsed_events)) r1 of
        Inl x \<Rightarrow> Inl x
      | Inr r2 \<Rightarrow>
     (case update_loop tz srv parsed_wps parsed_events
             (iter (may_update_set parsed_wps parsed_events)) r2 of
        Inl x \<Rightarrow> Inl x
      | Inr r3 \<Rightarrow>
          Inr ((to_create_set parsed_wps parsed_events,
                to_delete_set parsed_wps parsed_events,
                may_update_set parsed_wps parsed_events), r3))))"

text \<open>The enumeration of a finite set lists each of its elements once.\<close>

definition enumerates :: "(int set \<Rightarrow> int list) \<Rightarrow> int set \<Rightarrow> bool" where
  "enumerates iter A = (set (iter A) = A \<and> distinct (iter A))"

text \<open>The state of the run when \<open>synchronize_wps\<close> returned or was left by an exception.\<close>

definition final_run ::
  "(py_error \<times> 's run) + ((int set \<times> int set \<times> int set) \<times> 's run) \<Rightarrow> 's run" where
  "final_run res = (case res of Inl (e, r) \<Rightarrow> r | Inr (ids, r) \<Rightarrow> r)"

definition calls_for :: "int \<Rightarrow> 's run \<Rightarrow> (call \<times> string option) list" where
  "calls_for k r = map snd (filter (\<lambda>c. fst c = k) (calls r))"

section \<open>Example inputs\<close>

text \<open>
  A machine whose local zone is UTC: the fields are kept and the offset is 0; on the
  first day of year 1 the call raises ValueError, because it looks one day back.
\<close>

definition utc :: zone where
  "utc t = (if year t = 1 \<and> month t = 1 \<and> day t = 1 then Inl ValueError else Inr (t, 0))"

definition no_link :: link where
  "no_link = \<lparr>href = None, title = None\<rparr>"

text \<open>A normalized task due on 2024-03-01 at 08:15:00, its payload, and the payload parsed back.\<close>

definition task7 :: wp where
  "task7 = \<lparr>wp_id = 7, subject = ''Write report'', description = ''<p>Draft</p>'',
            parent = ''No parent'', assignee = ''Alice'', due_date = ''2024-03-01'',
            due_hour = ''08:15:00'', updated_at = ''2024-02-01T10:00:00Z''\<rparr>"

definition payload7 :: event where
  "payload7 = \<lparr>summary = ''7:Write report'',
      body = ''<p>Draft</p>Parent=No parent'' @ [NL] @ ''Alice'' @ [NL] @ ''2024-02-01T10:00:00Z'',
      start_dateTime = ''2024-03-01T08:15:00+00:00'',
      end_dateTime = ''2024-03-01T09:15:00+00:00'',
      useDefault = False, overrides = [(''popup'', 1440), (''popup'', 30)]\<rparr>"

definition parsed7 :: parsed_event where
  "parsed7 = \<lparr>event_id = ''e1'', ev_wp_id = PyStr ''7'', ev_subject = ''Write report'',
      ev_assignee = ''Alice'', ev_updated_at = ''2024-02-01T10:00:00Z'',
      ev_due_date = ''2024-03-01'', ev_due_hour = ''09:15:00+00:00''\<rparr>"

text \<open>A raw task without a due date whose description ends in a dueHour line.\<close>

definition raw5 :: raw_wp where
  "raw5 = \<lparr>el_id = 5, el_subject = ''Write report'',
     el_raw = Some (''Draft...'' @ [NL] @ ''dueHour=14:30:00''), el_html = ''<p>Draft...</p>'',
     el_parent = no_link, el_assignee = no_link,
     dueDate = None, createdAt = ''2024-01-02T09:00:00Z'', updatedAt = ''2024-01-03T10:00:00Z''\<rparr>"

definition task5 :: wp where
  "task5 = \<lparr>wp_id = 5, subject = ''Write report'', description = ''<p>Draft...</p>'',
      parent = ''No parent'', assignee = ''Not assigned to anyone'',
      due_date = ''2024-01-02'', due_hour = ''09:00:00'',
      updated_at = ''2024-01-03T10:00:00Z''\<rparr>"

text \<open>A raw task with a due date whose description carries no dueHour line.\<close>

definition raw6 :: raw_wp where
  "raw6 = \<lparr>el_id = 6, el_subject = ''Review'',
     el_raw = Some ''Draft'', el_html = ''<p>Draft</p>'',
     el_parent = no_link, el_assignee = no_link,
     dueDate = Some ''2024-03-01'', createdAt = ''2024-01-02T09:00:00Z'',
     updatedAt = ''2024-01-03T10:00:00Z''\<rparr>"

definition task6 :: wp where
  "task6 = \<lparr>wp_id = 6, subject = ''Review'', description = ''<p>Draft</p>'',
      parent = ''No parent'', assignee = ''Not assigned to anyone'',
      due_date = ''2024-03-01'', due_hour = ''Draft'',
      updated_at = ''2024-01-03T10:00:00Z''\<rparr>"

text \<open>A raw event as the calendar returns it.\<close>

definition gcal7 :: raw_event where
  "gcal7 = \<lparr>re_id = Some ''g7'', re_summary = Some ''7:Write report'',
      re_description = Some (''<p>Draft</p>Parent=No parent'' @ [NL] @ ''Alice'' @ [NL]
                              @ ''2024-02-01T10:00:00Z''),
      re_end = Some ''2024-03-01T09:15:00+03:00''\<rparr>"

definition event7 :: parsed_event where
  "event7 = \<lparr>event_id = ''g7'', ev_wp_id = PyStr ''7'', ev_subject = ''Write report'',
      ev_assignee = ''Alice'', ev_updated_at = ''2024-02-01T10:00:00Z'',
      ev_due_date = ''2024-03-01'', ev_due_hour = ''09:15:00+03:00''\<rparr>"

section \<open>Observing a run\<close>

text \<open>The state of the run that a loop returned or was left with.\<close>

definition run_of :: "(py_error \<times> 's run) + 's run \<Rightarrow> 's run" where
  "run_of res = (case res of Inl (e, r) \<Rightarrow> r | Inr r \<Rightarrow> r)"


fun is_delete :: "call \<Rightarrow> bool" where
  "is_delete (Delete eid) = True"
| "is_delete (Insert ev) = False"
| "is_delete (Update eid ev) = False"

text \<open>
  The calls of a log applied to the service one after the other, from the state \<open>s\<close>:
  the state they leave, if each call has the outcome the log gives for it.
\<close>

fun apply_call :: "'s service \<Rightarrow> call \<Rightarrow> 's \<Rightarrow> string option \<times> 's" where
  "apply_call srv (Insert ev) s = insert_event srv ev s"
| "apply_call srv (Delete eid) s = delete_event srv eid s"
| "apply_call srv (Update eid ev) s = update_event srv eid ev s"

fun replay :: "'s service \<Rightarrow> (call \<times> string option) list \<Rightarrow> 's \<Rightarrow> 's option" where
  "replay srv [] s = Some s"
| "replay srv (c # cs) s =
     (case apply_call srv (fst c) s of
        (out, s') \<Rightarrow> if out = snd c then replay srv cs s' else None)"

text \<open>
  The log of a run agrees with the service: replayed from the state \<open>s0\<close> in which the
  run started, the calls of the log have the outcomes the log gives and leave the
  service in the state of the run.
\<close>

definition log_agrees :: "'s service \<Rightarrow> 's \<Rightarrow> 's run \<Rightarrow> bool" where
  "log_agrees srv s0 r = (replay srv (map snd (calls r)) s0 = Some (srv_state r))"

text \<open>An interpreter that enumerates a set of integers in ascending order.\<close>

definition ascending :: "int set \<Rightarrow> int list" where
  "ascending A = sorted_list_of_set A"

text \<open>
  A calendar service whose state is the list of the calls it has received, in order;
  every call succeeds.
\<close>

definition recorder :: "call list service" where
  "recorder = \<lparr>insert_event = (\<lambda>ev s. (None, s @ [Insert ev])),
               delete_event = (\<lambda>eid s. (None, s @ [Delete eid])),
               update_event = (\<lambda>eid ev s. (None, s @ [Update eid ev]))\<rparr>"

text \<open>The same service on a calendar where every deletion raises.\<close>

definition flaky :: "call list service" where
  "flaky = \<lparr>insert_event = (\<lambda>ev s. (None, s @ [Insert ev])),
            delete_event = (\<lambda>eid s. (Some ''Not Found'', s @ [Delete eid])),
            update_event = (\<lambda>eid ev s. (None, s @ [Update eid ev]))\<rparr>"



text \<open>A raw task that is marked as not to be synchronized.\<close>

definition raw_marked :: raw_wp where
  "raw_marked = \<lparr>el_id = 7, el_subject = ''Write report'',
     el_raw = Some (''!!!'' @ [NL] @ ''dueHour=08:15:00''), el_html = ''<p>!!!</p>'',
     el_parent = no_link, el_assignee = no_link,
     dueDate = Some ''2024-03-01'', createdAt = ''2024-01-02T09:00:00Z'',
     updatedAt = ''2024-02-01T10:00:00Z''\<rparr>"


text \<open>Unfolding sets for the evaluation of concrete inputs.\<close>

lemmas int_eval = py_int_def int_strip_def int_space_def parse_nat_def is_digit_def
  digits_value_def digit_val_def max_str_digits_def
lemmas date_eval = str_to_date_def mk_datetime_def c_int_def days_in_month_def is_leap_def
  add_hour_def
lemmas fmt_eval = local_iso_def isoformat_def fmt_date_def fmt_time_def fmt_offset_def
  zpad_def str_nat.simps digit_char_def str_int_def py_str_def max_str_digits_def
lemmas wp_eval = parse_wp_def parent_of_def assignee_of_def due_of_def truthy_def
  not_synchronized_def no_link_def NL_def strip_def py_space_def

section \<open>Splitting\<close>

lemma split_on_ne: "split_on c s \<noteq> []"
  by (induction s) (auto split: list.splits)

lemma split_on_none: "c \<notin> set xs \<Longrightarrow> split_on c xs = [xs]"
  by (induction xs) auto

lemma split_on_append: "split_on c (xs @ c # ys) = split_on c xs @ split_on c ys"
proof (induction xs)
  case Nil
  show ?case by simp
next
  case (Cons x xs)
  obtain y zs where ne: "split_on c xs = y # zs"
    using split_on_ne [of c xs] by (cases "split_on c xs") auto
  show ?case
  proof (cases "x = c")
    case True
    with Cons show ?thesis by simp
  next
    case False
    with Cons ne show ?thesis by simp
  qed
qed

lemma digit_char_is_digit: "d < 10 \<Longrightarrow> is_digit (digit_char d)"
  unfolding is_digit_def digit_char_def by (rule nth_mem) simp

lemma below_ten: "d < 10 \<Longrightarrow> d \<in> {0, 1, 2, 3, 4, 5, 6, 7, 8, 9::nat}"
  by auto

lemma digit_val_digit_char: "d < 10 \<Longrightarrow> digit_val (digit_char d) = d"
  by (drule below_ten) (auto simp: digit_val_def digit_char_def)

lemma str_nat_digits: "list_all is_digit (str_nat n)"
proof (induction n rule: str_nat.induct)
  case (1 n)
  show ?case
  proof (cases "n < 10")
    case True
    then show ?thesis by (subst str_nat.simps) (simp add: digit_char_is_digit)
  next
    case False
    with 1 show ?thesis by (subst str_nat.simps) (simp add: digit_char_is_digit)
  qed
qed

lemma str_nat_ne: "str_nat n \<noteq> []"
  by (subst str_nat.simps) simp

lemma digits_value_snoc: "digits_value (ds @ [c]) = 10 * digits_value ds + digit_val c"
  by (simp add: digits_value_def)

lemma digits_value_str_nat: "digits_value (str_nat n) = n"
proof (induction n rule: str_nat.induct)
  case (1 n)
  show ?case
  proof (cases "n < 10")
    case True
    then show ?thesis
      by (subst str_nat.simps) (simp add: digits_value_def digit_val_digit_char)
  next
    case False
    with 1 have "digits_value (str_nat (n div 10)) = n div 10" by simp
    with False show ?thesis
      by (subst str_nat.simps) (simp add: digits_value_snoc digit_val_digit_char)
  qed
qed

lemma digits_no_char: "list_all is_digit s \<Longrightarrow> \<not> is_digit c \<Longrightarrow> c \<notin> set s"
  by (auto simp: list_all_iff)

lemma parse_nat_str_nat:
  "length (str_nat n) \<le> max_str_digits \<Longrightarrow> parse_nat (str_nat n) = Some n"
proof -
  assume len: "length (str_nat n) \<le> max_str_digits"
  have "CHR ''_'' \<notin> set (str_nat n)"
    by (rule digits_no_char [OF str_nat_digits]) (simp add: is_digit_def)
  then have "split_on CHR ''_'' (str_nat n) = [str_nat n]" by (rule split_on_none)
  with len show ?thesis
    by (simp add: parse_nat_def str_nat_ne str_nat_digits digits_value_str_nat)
qed

lemma int_strip_id:
  "s \<noteq> [] \<Longrightarrow> \<not> int_space (hd s) \<Longrightarrow> \<not> int_space (last s) \<Longrightarrow> int_strip s = s"
proof -
  assume a: "s \<noteq> []" "\<not> int_space (hd s)" "\<not> int_space (last s)"
  then have 1: "dropWhile int_space s = s" by (cases s) auto
  from a have "\<not> int_space (hd (rev s))" by (simp add: hd_rev)
  with a have 2: "dropWhile int_space (rev s) = rev s" by (cases "rev s") auto
  show ?thesis by (simp add: int_strip_def 1 2)
qed

lemma digit_not_space: "is_digit c \<Longrightarrow> \<not> int_space c"
  by (auto simp: is_digit_def int_space_def)

lemma str_nat_hd_digit: "is_digit (hd (str_nat n))"
  using str_nat_digits [of n] str_nat_ne [of n] by (cases "str_nat n") auto

lemma str_nat_last_digit: "is_digit (last (str_nat n))"
  using str_nat_digits [of n] str_nat_ne [of n] by (auto simp: list_all_iff)

lemma py_str_Inr:
  "py_str i = Inr s \<Longrightarrow> s = str_int i \<and> length (str_nat (nat \<bar>i\<bar>)) \<le> max_str_digits"
  by (auto simp: py_str_def split: if_splits)

lemma py_int_py_str: "py_str i = Inr s \<Longrightarrow> py_int s = Inr i"
proof -
  assume "py_str i = Inr s"
  from py_str_Inr [OF this]
  have s: "s = str_int i" and len: "length (str_nat (nat \<bar>i\<bar>)) \<le> max_str_digits"
    by simp_all
  show ?thesis
  proof (cases "i < 0")
    case True
    then have n: "nat \<bar>i\<bar> = nat (- i)" by simp
    let ?s = "CHR ''-'' # str_nat (nat (- i))"
    have m: "\<not> int_space CHR ''-''" by (simp add: int_space_def)
    have l: "\<not> int_space (last (str_nat (nat (- i))))"
      by (rule digit_not_space [OF str_nat_last_digit])
    have "int_strip ?s = ?s"
      by (rule int_strip_id) (simp_all add: m l str_nat_ne)
    moreover have "parse_nat (str_nat (nat (- i))) = Some (nat (- i))"
      using len n by (simp add: parse_nat_str_nat)
    ultimately show ?thesis using True s
      by (simp add: py_int_def str_int_def)
  next
    case False
    then have n: "nat \<bar>i\<bar> = nat i" by simp
    let ?s = "str_nat (nat i)"
    obtain c cs where cs: "?s = c # cs" using str_nat_ne [of "nat i"] by (cases ?s) auto
    have d: "is_digit c" using str_nat_hd_digit [of "nat i"] cs by simp
    have "int_strip ?s = ?s"
      by (rule int_strip_id)
        (simp_all add: str_nat_ne digit_not_space str_nat_hd_digit str_nat_last_digit)
    then have st: "int_strip ?s = c # cs" using cs by simp
    from d have ne: "c \<noteq> CHR ''-''" "c \<noteq> CHR ''+''" by (auto simp: is_digit_def)
    have "parse_nat (c # cs) = Some (nat i)"
      using parse_nat_str_nat [of "nat i"] cs len n by simp
    with False st ne s show ?thesis
      by (simp add: py_int_def str_int_def)
  qed
qed

lemma zero_is_digit: "is_digit CHR ''0''"
  by (simp add: is_digit_def)

lemma zpad_digits: "list_all is_digit (zpad w i)"
  unfolding zpad_def list_all_append
  by (rule conjI) (simp add: list_all_iff zero_is_digit, rule str_nat_digits)

lemma zpad_no_char: "\<not> is_digit c \<Longrightarrow> c \<notin> set (zpad w i)"
  by (rule digits_no_char [OF zpad_digits])

lemma T_not_digit: "\<not> is_digit CHR ''T''"
  by (simp add: is_digit_def)

lemma fmt_date_no_T: "CHR ''T'' \<notin> set (fmt_date t)"
  by (simp add: fmt_date_def zpad_no_char [OF T_not_digit])

lemma fmt_time_no_T: "CHR ''T'' \<notin> set (fmt_time t)"
  by (simp add: fmt_time_def zpad_no_char [OF T_not_digit])

lemma fmt_offset_no_T: "CHR ''T'' \<notin> set (fmt_offset off)"
  by (simp add: fmt_offset_def zpad_no_char [OF T_not_digit])

lemma split_isoformat:
  "split_on CHR ''T'' (isoformat a) = [fmt_date (fst a), fmt_time (fst a) @ fmt_offset (snd a)]"
proof -
  have "isoformat a = fmt_date (fst a) @ CHR ''T'' # (fmt_time (fst a) @ fmt_offset (snd a))"
    by (simp add: isoformat_def)
  moreover have "split_on CHR ''T'' (fmt_date (fst a)) = [fmt_date (fst a)]"
    by (rule split_on_none [OF fmt_date_no_T])
  moreover have "split_on CHR ''T'' (fmt_time (fst a) @ fmt_offset (snd a))
      = [fmt_time (fst a) @ fmt_offset (snd a)]"
    by (rule split_on_none) (simp add: fmt_time_no_T fmt_offset_no_T)
  ultimately show ?thesis by (simp add: split_on_append)
qed

lemma colon_not_in_str_int: "CHR '':'' \<notin> set (str_int i)"
proof -
  have "CHR '':'' \<notin> set (str_nat n)" for n
    by (rule digits_no_char [OF str_nat_digits]) (simp add: is_digit_def)
  then show ?thesis by (simp add: str_int_def)
qed

lemma split_summary:
  "split_on CHR '':'' (str_int i @ '':'' @ s) = str_int i # split_on CHR '':'' s"
  using split_on_append [of "CHR '':''" "str_int i" s]
  by (simp add: split_on_none [OF colon_not_in_str_int])

lemma split_body:
  assumes "NL \<notin> set a" "NL \<notin> set u"
  shows "split_on NL (d @ [NL] @ a @ [NL] @ u) = split_on NL d @ [a, u]"
proof -
  have "split_on NL (a @ NL # u) = [a, u]"
    using assms by (simp add: split_on_append split_on_none)
  then show ?thesis
    using split_on_append [of NL d "a @ NL # u"] by simp
qed

lemma wp_to_event_Inr:
  assumes "wp_to_event tz w = Inr ev"
  shows "\<exists>t t' a b. str_to_date (due_date w) (due_hour w) = Inr t \<and> add_hour t = Inr t' \<and>
     py_str (wp_id w) = Inr (str_int (wp_id w)) \<and> tz t = Inr b \<and> tz t' = Inr a \<and>
     ev = \<lparr>summary = str_int (wp_id w) @ '':'' @ subject w,
           body = description w @ ''Parent='' @ parent w @ [NL]
                  @ assignee w @ [NL] @ updated_at w,
           start_dateTime = isoformat b, end_dateTime = isoformat a,
           useDefault = False, overrides = [(''popup'', 24 * 60), (''popup'', 30)]\<rparr>"
proof -
  from assms obtain t t' i b' a' where
    t: "str_to_date (due_date w) (due_hour w) = Inr t" and t': "add_hour t = Inr t'"
    and i: "py_str (wp_id w) = Inr i"
    and b': "local_iso tz t = Inr b'" and a': "local_iso tz t' = Inr a'"
    and ev: "ev = \<lparr>summary = i @ '':'' @ subject w,
           body = description w @ ''Parent='' @ parent w @ [NL]
                  @ assignee w @ [NL] @ updated_at w,
           start_dateTime = b', end_dateTime = a',
           useDefault = False, overrides = [(''popup'', 24 * 60), (''popup'', 30)]\<rparr>"
    unfolding wp_to_event_def by (auto split: sum.splits)
  from i have i': "i = str_int (wp_id w)" by (simp add: py_str_Inr)
  from b' obtain b where b: "tz t = Inr b" "b' = isoformat b"
    by (auto simp: local_iso_def split: sum.splits)
  from a' obtain a where a: "tz t' = Inr a" "a' = isoformat a"
    by (auto simp: local_iso_def split: sum.splits)
  from t t' i i' a b ev show ?thesis by blast
qed

lemma parse_stored_event:
  assumes ev: "wp_to_event tz w = Inr ev"
    and a: "NL \<notin> set (assignee w)" and u: "NL \<notin> set (updated_at w)"
  shows "\<exists>t t' loc. str_to_date (due_date w) (due_hour w) = Inr t \<and> add_hour t = Inr t' \<and>
     tz t' = Inr loc \<and>
     parse_event (stored_event eid ev) =
       Inr (wp_id w,
            \<lparr>event_id = eid, ev_wp_id = PyStr (str_int (wp_id w)),
             ev_subject = last (split_on CHR '':'' (subject w)),
             ev_assignee = assignee w, ev_updated_at = updated_at w,
             ev_due_date = fmt_date (fst loc),
             ev_due_hour = fmt_time (fst loc) @ fmt_offset (snd loc)\<rparr>)"
proof -
  from wp_to_event_Inr [OF ev] obtain t t' loc b where
    t: "str_to_date (due_date w) (due_hour w) = Inr t" and t': "add_hour t = Inr t'"
    and i: "py_str (wp_id w) = Inr (str_int (wp_id w))" and loc: "tz t' = Inr loc"
    and e: "ev = \<lparr>summary = str_int (wp_id w) @ '':'' @ subject w,
           body = description w @ ''Parent='' @ parent w @ [NL]
                  @ assignee w @ [NL] @ updated_at w,
           start_dateTime = isoformat b, end_dateTime = isoformat loc,
           useDefault = False, overrides = [(''popup'', 24 * 60), (''popup'', 30)]\<rparr>"
    by blast
  have b: "body ev = (description w @ ''Parent='' @ parent w) @ [NL] @ assignee w @ [NL] @ updated_at w"
    by (simp add: e)
  have sb: "split_on NL (body ev) = split_on NL (description w @ ''Parent='' @ parent w) @ [assignee w, updated_at w]"
    unfolding b by (rule split_body [OF a u])
  have ss: "split_on CHR '':'' (summary ev) = str_int (wp_id w) # split_on CHR '':'' (subject w)"
    unfolding e by simp (rule split_summary [simplified])
  have se: "split_on CHR ''T'' (end_dateTime ev)
      = [fmt_date (fst loc), fmt_time (fst loc) @ fmt_offset (snd loc)]"
    unfolding e by simp (rule split_isoformat)
  have "parse_event (stored_event eid ev) =
       Inr (wp_id w,
            \<lparr>event_id = eid, ev_wp_id = PyStr (str_int (wp_id w)),
             ev_subject = last (split_on CHR '':'' (subject w)),
             ev_assignee = assignee w, ev_updated_at = updated_at w,
             ev_due_date = fmt_date (fst loc),
             ev_due_hour = fmt_time (fst loc) @ fmt_offset (snd loc)\<rparr>)"
    by (simp add: parse_event_def stored_event_def key_of_def sb ss se
        py_int_py_str [OF i] split_on_ne nth_append)
  with t t' loc show ?thesis by blast
qed

section \<open>The examples evaluated\<close>

lemma task7_payload: "wp_to_event utc task7 = Inr payload7"
  by (simp add: wp_to_event_def task7_def payload7_def utc_def int_eval date_eval fmt_eval)

lemma payload7_parsed: "parse_event (stored_event ''e1'' payload7) = Inr (7, parsed7)"
  by (simp add: parse_event_def stored_event_def payload7_def parsed7_def key_of_def NL_def int_eval)


lemma raw5_parsed: "parse_wp raw5 = Inr task5"
  by (simp add: raw5_def task5_def wp_eval)

lemma raw6_parsed: "parse_wp raw6 = Inr task6"
  by (simp add: raw6_def task6_def wp_eval)

lemma raw6_sync: "\<not> not_synchronized raw6"
  by (simp add: raw6_def wp_eval)

lemma task6_no_date: "str_to_date (due_date task6) (due_hour task6) = Inl ValueError"
  by (simp add: task6_def int_eval date_eval)

lemma gcal7_parsed: "parse_event gcal7 = Inr (7, event7)"
  by (simp add: parse_event_def gcal7_def event7_def key_of_def NL_def int_eval)

section \<open>The three loops\<close>

lemma calls_for_tag: "map snd (filter (\<lambda>c. fst c = j) (tag k cs)) = (if j = k then cs else [])"
  by (induction cs) (auto simp: tag_def)

lemma calls_for_create_step:
  "calls_for j (r\<lparr>to_create_err := a, srv_state := s, calls := calls r @ tag k cs\<rparr>)
     = calls_for j r @ (if j = k then cs else [])"
  by (simp add: calls_for_def calls_for_tag)

lemma calls_for_delete_step:
  "calls_for j (r\<lparr>to_delete_err := a, srv_state := s, calls := calls r @ tag k cs\<rparr>)
     = calls_for j r @ (if j = k then cs else [])"
  by (simp add: calls_for_def calls_for_tag)

lemma calls_for_update_step:
  "calls_for j (r\<lparr>may_update_err := a, srv_state := s, calls := calls r @ tag k cs\<rparr>)
     = calls_for j r @ (if j = k then cs else [])"
  by (simp add: calls_for_def calls_for_tag)

lemma create_loop_frame:
  "j \<notin> set ks \<Longrightarrow> calls_for j (run_of (create_loop tz srv wps ks r)) = calls_for j r"
proof (induction ks arbitrary: r)
  case Nil
  show ?case by (simp add: run_of_def)
next
  case (Cons k ks)
  then have j: "j \<noteq> k" "j \<notin> set ks" by auto
  show ?case
  proof (cases "map_of wps k")
    case None
    then show ?thesis by (simp add: run_of_def)
  next
    case (Some w)
    show ?thesis
    proof (cases "to_create tz srv w (srv_state r)")
      case (Inl e)
      with Some show ?thesis by (simp add: run_of_def)
    next
      case (Inr x)
      obtain err s' cs where x: "x = (err, s', cs)" by (cases x) auto
      from Some Inr x j show ?thesis
        by (simp add: Cons.IH calls_for_create_step)
    qed
  qed
qed




lemma delete_loop_frame:
  "j \<notin> set ks \<Longrightarrow> calls_for j (run_of (delete_loop srv evs ks r)) = calls_for j r"
proof (induction ks arbitrary: r)
  case Nil
  show ?case by (simp add: run_of_def)
next
  case (Cons k ks)
  then have j: "j \<noteq> k" "j \<notin> set ks" by auto
  show ?case
  proof (cases "map_of evs k")
    case None
    then show ?thesis by (simp add: run_of_def)
  next
    case (Some pe)
    obtain err s' cs where x: "to_delete srv pe (srv_state r) = (err, s', cs)"
      by (cases "to_delete srv pe (srv_state r)") auto
    from Some x j show ?thesis
      by (simp add: Cons.IH calls_for_delete_step)
  qed
qed

lemma to_delete_result:
  "to_delete srv pe s = (err, s', cs) \<Longrightarrow> cs = [(Delete (event_id pe), err)]"
  by (auto simp: to_delete_def split: prod.splits)

lemma delete_loop_only_deletes:
  "list_all (\<lambda>c. is_delete (fst c)) (calls_for j r) \<Longrightarrow>
   list_all (\<lambda>c. is_delete (fst c)) (calls_for j (run_of (delete_loop srv evs ks r)))"
proof (induction ks arbitrary: r)
  case Nil
  then show ?case by (simp add: run_of_def)
next
  case (Cons k ks)
  show ?case
  proof (cases "map_of evs k")
    case None
    with Cons.prems show ?thesis by (simp add: run_of_def)
  next
    case (Some pe)
    obtain err s' cs where x: "to_delete srv pe (srv_state r) = (err, s', cs)"
      by (cases "to_delete srv pe (srv_state r)") auto
    let ?r1 = "r\<lparr>to_delete_err := to_delete_err r @ [err], srv_state := s',
                 calls := calls r @ tag k cs\<rparr>"
    from to_delete_result [OF x] Cons.prems
    have "list_all (\<lambda>c. is_delete (fst c)) (calls_for j ?r1)"
      by (simp add: calls_for_delete_step)
    from Cons.IH [OF this] Some x show ?thesis by simp
  qed
qed

lemma delete_loop_calls:
  "delete_loop srv evs ks r = Inr r' \<Longrightarrow> distinct ks \<Longrightarrow> k \<in> set ks \<Longrightarrow>
   map_of evs k = Some pe \<Longrightarrow>
   \<exists>out. calls_for k r' = calls_for k r @ [(Delete (event_id pe), out)]"
proof (induction ks arbitrary: r)
  case Nil
  then show ?case by simp
next
  case (Cons k0 ks)
  from Cons.prems(1) obtain pe0 where pe0: "map_of evs k0 = Some pe0"
    by (cases "map_of evs k0") auto
  obtain err s' cs where td: "to_delete srv pe0 (srv_state r) = (err, s', cs)"
    by (cases "to_delete srv pe0 (srv_state r)") auto
  let ?r1 = "r\<lparr>to_delete_err := to_delete_err r @ [err], srv_state := s',
               calls := calls r @ tag k0 cs\<rparr>"
  from Cons.prems(1) pe0 td have rest: "delete_loop srv evs ks ?r1 = Inr r'" by simp
  from Cons.prems(2) have d: "k0 \<notin> set ks" "distinct ks" by auto
  show ?case
  proof (cases "k = k0")
    case True
    from delete_loop_frame [OF d(1), of srv evs ?r1] rest
    have "calls_for k0 r' = calls_for k0 ?r1" by (simp add: run_of_def)
    with to_delete_result [OF td] True pe0 Cons.prems(4) show ?thesis
      by (simp add: calls_for_delete_step)
  next
    case False
    with Cons.prems(3) have "k \<in> set ks" by simp
    from Cons.IH [OF rest d(2) this Cons.prems(4)] False show ?thesis
      by (simp add: calls_for_delete_step)
  qed
qed




lemma update_loop_frame:
  "j \<notin> set ks \<Longrightarrow> calls_for j (run_of (update_loop tz srv wps evs ks r)) = calls_for j r"
proof (induction ks arbitrary: r)
  case Nil
  show ?case by (simp add: run_of_def)
next
  case (Cons k ks)
  then have j: "j \<noteq> k" "j \<notin> set ks" by auto
  show ?case
  proof (cases "map_of wps k")
    case None
    then show ?thesis by (simp add: run_of_def)
  next
    case (Some w)
    show ?thesis
    proof (cases "map_of evs k")
      case None
      with Some show ?thesis by (simp add: run_of_def)
    next
      case pe: (Some pe)
      show ?thesis
      proof (cases "may_update tz srv w pe (srv_state r)")
        case (Inl e)
        with Some pe show ?thesis by (simp add: run_of_def)
      next
        case (Inr x)
        obtain err s' cs where x: "x = (err, s', cs)" by (cases x) auto
        from Some pe Inr x j show ?thesis
          by (simp add: Cons.IH calls_for_update_step)
      qed
    qed
  qed
qed



lemma enumerates_ascending: "finite A \<Longrightarrow> enumerates ascending A"
  by (simp add: enumerates_def ascending_def)

lemmas sync_eval = synchronize_wps_def to_create_set_def to_delete_set_def may_update_set_def
  ascending_def start_run_def to_create_def to_delete_def may_update_def recorder_def
  flaky_def tag_def insert_Diff_if


lemma sync_marked:
  "synchronize_wps utc ascending recorder [] [(7, event7)] [] =
     Inr (({}, {7}, {}),
          \<lparr>to_create_err = [], to_delete_err = [None], may_update_err = [],
           srv_state = [Delete ''g7''], calls = [(7, Delete ''g7'', None)]\<rparr>)"
  by (simp add: sync_eval) (simp add: event7_def)

lemma sync_abort:
  "synchronize_wps utc ascending recorder [(6, task6), (7, task7)] [] [] =
     Inl (ValueError, start_run [])"
  by (simp add: sync_eval wp_to_event_def task6_no_date)



lemma marked_excluded: "not_synchronized raw_marked"
  by (simp add: raw_marked_def wp_eval)

lemma raw_marked_parsed: "parse_workpackages [raw_marked] = ([], [])"
  by (simp add: parse_workpackages_def parse_wp_step_def marked_excluded)

section \<open>Runs of the reconciler\<close>

lemma synchronize_Inr:
  assumes "synchronize_wps tz iter srv wps evs s = Inr (ids, r)"
  shows "\<exists>r1 r2.
     create_loop tz srv wps (iter (to_create_set wps evs)) (start_run s) = Inr r1 \<and>
     delete_loop srv evs (iter (to_delete_set wps evs)) r1 = Inr r2 \<and>
     update_loop tz srv wps evs (iter (may_update_set wps evs)) r2 = Inr r \<and>
     ids = (to_create_set wps evs, to_delete_set wps evs, may_update_set wps evs)"
  using assms by (auto simp: synchronize_wps_def split: sum.splits)

lemma final_run_cases:
  "final_run (synchronize_wps tz iter srv wps evs s)
     = run_of (create_loop tz srv wps (iter (to_create_set wps evs)) (start_run s)) \<or>
   (\<exists>r1. create_loop tz srv wps (iter (to_create_set wps evs)) (start_run s) = Inr r1 \<and>
      (final_run (synchronize_wps tz iter srv wps evs s)
         = run_of (delete_loop srv evs (iter (to_delete_set wps evs)) r1) \<or>
       (\<exists>r2. delete_loop srv evs (iter (to_delete_set wps evs)) r1 = Inr r2 \<and>
          final_run (synchronize_wps tz iter srv wps evs s)
            = run_of (update_loop tz srv wps evs (iter (may_update_set wps evs)) r2))))"
  by (auto simp: synchronize_wps_def final_run_def run_of_def split: sum.splits prod.splits)

lemma calls_for_start: "calls_for k (start_run s) = []"
  by (simp add: calls_for_def start_run_def)

lemma map_of_key: "map_of al k = Some v \<Longrightarrow> k \<in> set (map fst al)"
  by (induction al) (auto split: if_splits)






section \<open>The log and the service\<close>

lemma replay_append:
  "replay srv (xs @ ys) s =
     (case replay srv xs s of None \<Rightarrow> None | Some s' \<Rightarrow> replay srv ys s')"
  by (induction xs arbitrary: s) (auto split: prod.splits)

lemma map_snd_tag: "map snd (tag k cs) = cs"
  by (induction cs) (simp_all add: tag_def)

lemma log_agrees_start: "log_agrees srv s (start_run s)"
  by (simp add: log_agrees_def start_run_def)

lemma log_agrees_step:
  assumes "log_agrees srv s0 r" and "replay srv cs (srv_state r) = Some s'"
    and "calls r' = calls r @ tag k cs" and "srv_state r' = s'"
  shows "log_agrees srv s0 r'"
  using assms by (simp add: log_agrees_def replay_append map_snd_tag)

lemma to_create_replay:
  "to_create tz srv w s = Inr (err, s', cs) \<Longrightarrow> replay srv cs s = Some s'"
  by (auto simp: to_create_def split: sum.splits prod.splits)

lemma to_delete_replay:
  "to_delete srv pe s = (err, s', cs) \<Longrightarrow> replay srv cs s = Some s'"
  by (auto simp: to_delete_def split: prod.splits)

lemma may_update_replay:
  "may_update tz srv w pe s = Inr (err, s', cs) \<Longrightarrow> replay srv cs s = Some s'"
  by (auto simp: may_update_def split: sum.splits prod.splits if_splits)

lemma create_loop_log:
  "log_agrees srv s0 r \<Longrightarrow> log_agrees srv s0 (run_of (create_loop tz srv wps ks r))"
proof (induction ks arbitrary: r)
  case Nil
  then show ?case by (simp add: run_of_def)
next
  case (Cons k ks)
  show ?case
  proof (cases "map_of wps k")
    case None
    with Cons.prems show ?thesis by (simp add: run_of_def)
  next
    case (Some w)
    show ?thesis
    proof (cases "to_create tz srv w (srv_state r)")
      case (Inl e)
      with Some Cons.prems show ?thesis by (simp add: run_of_def)
    next
      case (Inr x)
      obtain err s' cs where x: "x = (err, s', cs)" by (cases x) auto
      let ?r1 = "r\<lparr>to_create_err := to_create_err r @ [err], srv_state := s',
                   calls := calls r @ tag k cs\<rparr>"
      from Inr x have "replay srv cs (srv_state r) = Some s'"
        by (simp add: to_create_replay)
      with Cons.prems have "log_agrees srv s0 ?r1"
        by (rule log_agrees_step) simp_all
      from Cons.IH [OF this] Some Inr x show ?thesis by simp
    qed
  qed
qed

lemma delete_loop_log:
  "log_agrees srv s0 r \<Longrightarrow> log_agrees srv s0 (run_of (delete_loop srv evs ks r))"
proof (induction ks arbitrary: r)
  case Nil
  then show ?case by (simp add: run_of_def)
next
  case (Cons k ks)
  show ?case
  proof (cases "map_of evs k")
    case None
    with Cons.prems show ?thesis by (simp add: run_of_def)
  next
    case (Some pe)
    obtain err s' cs where x: "to_delete srv pe (srv_state r) = (err, s', cs)"
      by (cases "to_delete srv pe (srv_state r)") auto
    let ?r1 = "r\<lparr>to_delete_err := to_delete_err r @ [err], srv_state := s',
                 calls := calls r @ tag k cs\<rparr>"
    from x have "replay srv cs (srv_state r) = Some s'"
      by (rule to_delete_replay)
    with Cons.prems have "log_agrees srv s0 ?r1"
      by (rule log_agrees_step) simp_all
    from Cons.IH [OF this] Some x show ?thesis by simp
  qed
qed

lemma update_loop_log:
  "log_agrees srv s0 r \<Longrightarrow> log_agrees srv s0 (run_of (update_loop tz srv wps evs ks r))"
proof (induction ks arbitrary: r)
  case Nil
  then show ?case by (simp add: run_of_def)
next
  case (Cons k ks)
  show ?case
  proof (cases "map_of wps k")
    case None
    with Cons.prems show ?thesis by (simp add: run_of_def)
  next
    case (Some w)
    show ?thesis
    proof (cases "map_of evs k")
      case None
      with Some Cons.prems show ?thesis by (simp add: run_of_def)
    next
      case pe: (Some pe)
      show ?thesis
      proof (cases "may_update tz srv w pe (srv_state r)")
        case (Inl e)
        with Some pe Cons.prems show ?thesis by (simp add: run_of_def)
      next
        case (Inr x)
        obtain err s' cs where x: "x = (err, s', cs)" by (cases x) auto
        let ?r1 = "r\<lparr>may_update_err := may_update_err r @ [err], srv_state := s',
                     calls := calls r @ tag k cs\<rparr>"
        from Inr x have "replay srv cs (srv_state r) = Some s'"
          by (simp add: may_update_replay)
        with Cons.prems have "log_agrees srv s0 ?r1"
          by (rule log_agrees_step) simp_all
        from Cons.IH [OF this] Some pe Inr x show ?thesis by simp
      qed
    qed
  qed
qed

lemma final_run_log: "log_agrees srv s (final_run (synchronize_wps tz iter srv wps evs s))"
proof -
  let ?c = "create_loop tz srv wps (iter (to_create_set wps evs)) (start_run s)"
  have c: "log_agrees srv s (run_of ?c)"
    by (rule create_loop_log [OF log_agrees_start])
  from final_run_cases [of tz iter srv wps evs s] show ?thesis
  proof (elim disjE exE conjE)
    assume "final_run (synchronize_wps tz iter srv wps evs s) = run_of ?c"
    with c show ?thesis by simp
  next
    fix r1
    assume r1: "?c = Inr r1"
      and f: "final_run (synchronize_wps tz iter srv wps evs s)
         = run_of (delete_loop srv evs (iter (to_delete_set wps evs)) r1)"
    from c r1 have "log_agrees srv s r1" by (simp add: run_of_def)
    from delete_loop_log [OF this] f show ?thesis by simp
  next
    fix r1 r2
    assume r1: "?c = Inr r1"
      and r2: "delete_loop srv evs (iter (to_delete_set wps evs)) r1 = Inr r2"
      and f: "final_run (synchronize_wps tz iter srv wps evs s)
         = run_of (update_loop tz srv wps evs (iter (may_update_set wps evs)) r2)"
    from c r1 have "log_agrees srv s r1" by (simp add: run_of_def)
    from delete_loop_log [OF this, of evs "iter (to_delete_set wps evs)"] r2
    have "log_agrees srv s r2" by (simp add: run_of_def)
    from update_loop_log [OF this] f show ?thesis by simp
  qed
qed

section \<open>Keys of the task map\<close>

lemma parse_wp_loop_append:
  "parse_wp_loop (xs @ ys) acc = parse_wp_loop ys (parse_wp_loop xs acc)"
  by (induction xs arbitrary: acc) simp_all

lemma parse_wp_step_excluded: "not_synchronized elem \<Longrightarrow> parse_wp_step elem acc = acc"
  by (simp add: parse_wp_step_def)

lemma parse_wp_step_keys:
  "fst ` set (fst (parse_wp_step elem acc)) \<subseteq> insert (el_id elem) (fst ` set (fst acc))"
  by (auto simp: parse_wp_step_def dom_update split: sum.splits)

lemma parse_wp_loop_keys:
  "fst ` set (fst (parse_wp_loop es acc)) \<subseteq> el_id ` set es \<union> fst ` set (fst acc)"
proof (induction es arbitrary: acc)
  case Nil
  show ?case by simp
next
  case (Cons e es)
  from Cons.IH [of "parse_wp_step e acc"] parse_wp_step_keys [of e acc]
  show ?case by auto
qed


section \<open>The partition of the identifiers\<close>

text \<open>
  C3. The sets \<open>synchronize_wps\<close> computes from the keys of the two dictionaries:
  to_create and may_update together are the task ids, to_delete and may_update
  together are the event wp_ids, and the three sets are pairwise disjoint.
\<close>

theorem partition_complete:
  "to_create_set wps evs \<union> may_update_set wps evs = set (map fst wps) \<and>
   to_delete_set wps evs \<union> may_update_set wps evs = set (map fst evs) \<and>
   to_create_set wps evs \<inter> to_delete_set wps evs = {} \<and>
   to_create_set wps evs \<inter> may_update_set wps evs = {} \<and>
   to_delete_set wps evs \<inter> may_update_set wps evs = {}"
  unfolding to_create_set_def to_delete_set_def may_update_set_def by blast

section \<open>The round trip through the calendar\<close>

text \<open>
  C1, as stated, fails: the event parsed back from the payload of \<open>task7\<close> carries the
  due hour \<open>09:15:00+00:00\<close>, the end of the event with the zone's offset, where the
  task has \<open>08:15:00\<close>, and its wp_id is the text \<open>7\<close>, not the integer.
\<close>

theorem roundtrip_counterexample:
  "wp_to_event utc task7 = Inr payload7 \<and>
   parse_event (stored_event ''e1'' payload7) = Inr (7, parsed7) \<and>
   ev_due_hour parsed7 \<noteq> due_hour task7 \<and>
   ev_wp_id parsed7 \<noteq> PyInt (wp_id task7)"
  by (simp add: task7_payload payload7_parsed) (simp add: parsed7_def task7_def)

text \<open>
  C1, amended. For every normalized task whose payload can be built, whose subject has
  no colon and whose assignee and updated_at have no line break, the payload stored
  under any event id is parsed into exactly one event, under the key wp_id of the
  task: its wp_id is the decimal text of that id, its subject, assignee and updated_at
  are the task's, and its due_date and due_hour are read from the end of the event,
  which is the local time that \<open>astimezone\<close> gives for the time one hour after the
  task's due date and hour: due_date is the date of that local time, and due_hour its
  time of day followed by its offset from UTC.
\<close>

theorem roundtrip_recovers:
  assumes "wp_to_event tz w = Inr ev"
    and "CHR '':'' \<notin> set (subject w)"
    and "NL \<notin> set (assignee w)" and "NL \<notin> set (updated_at w)"
  shows "\<exists>t t' loc pe.
     str_to_date (due_date w) (due_hour w) = Inr t \<and> add_hour t = Inr t' \<and>
     tz t' = Inr loc \<and>
     parse_events [stored_event eid ev] = ([(wp_id w, pe)], []) \<and>
     event_id pe = eid \<and> ev_wp_id pe = PyStr (str_int (wp_id w)) \<and>
     ev_subject pe = subject w \<and> ev_assignee pe = assignee w \<and>
     ev_updated_at pe = updated_at w \<and>
     ev_due_date pe = fmt_date (fst loc) \<and>
     ev_due_hour pe = fmt_time (fst loc) @ fmt_offset (snd loc)"
proof -
  from parse_stored_event [OF assms(1) assms(3) assms(4), of eid]
  obtain t t' loc where t: "str_to_date (due_date w) (due_hour w) = Inr t"
    and t': "add_hour t = Inr t'" and loc: "tz t' = Inr loc"
    and p: "parse_event (stored_event eid ev) =
       Inr (wp_id w,
            \<lparr>event_id = eid, ev_wp_id = PyStr (str_int (wp_id w)),
             ev_subject = last (split_on CHR '':'' (subject w)),
             ev_assignee = assignee w, ev_updated_at = updated_at w,
             ev_due_date = fmt_date (fst loc),
             ev_due_hour = fmt_time (fst loc) @ fmt_offset (snd loc)\<rparr>)"
    by blast
  have s: "last (split_on CHR '':'' (subject w)) = subject w"
    by (simp add: split_on_none [OF assms(2)])
  let ?pe = "\<lparr>event_id = eid, ev_wp_id = PyStr (str_int (wp_id w)),
             ev_subject = subject w,
             ev_assignee = assignee w, ev_updated_at = updated_at w,
             ev_due_date = fmt_date (fst loc),
             ev_due_hour = fmt_time (fst loc) @ fmt_offset (snd loc)\<rparr>"
  from p have "parse_events [stored_event eid ev] = ([(wp_id w, ?pe)], [])"
    by (simp add: parse_events_def parse_event_step_def s)
  with t t' loc show ?thesis
    by (intro exI [of _ t] exI [of _ t'] exI [of _ loc] exI [of _ ?pe]) simp
qed

theorem roundtrip_recovers_witness:
  "wp_to_event utc task7 = Inr payload7 \<and>
   CHR '':'' \<notin> set (subject task7) \<and>
   NL \<notin> set (assignee task7) \<and> NL \<notin> set (updated_at task7) \<and>
   (\<exists>t t' loc pe.
     str_to_date (due_date task7) (due_hour task7) = Inr t \<and> add_hour t = Inr t' \<and>
     utc t' = Inr loc \<and>
     parse_events [stored_event ''e1'' payload7] = ([(wp_id task7, pe)], []) \<and>
     event_id pe = ''e1'' \<and> ev_wp_id pe = PyStr (str_int (wp_id task7)) \<and>
     ev_subject pe = subject task7 \<and> ev_assignee pe = assignee task7 \<and>
     ev_updated_at pe = updated_at task7 \<and>
     ev_due_date pe = fmt_date (fst loc) \<and>
     ev_due_hour pe = fmt_time (fst loc) @ fmt_offset (snd loc))"
proof -
  have h2: "CHR '':'' \<notin> set (subject task7)" by (simp add: task7_def)
  have h3: "NL \<notin> set (assignee task7)" by (simp add: task7_def NL_def)
  have h4: "NL \<notin> set (updated_at task7)" by (simp add: task7_def NL_def)
  from roundtrip_recovers [OF task7_payload h2 h3 h4, of "''e1''"] task7_payload h2 h3 h4
  show ?thesis by blast
qed

section \<open>The body of the event\<close>

text \<open>
  C7, as stated, fails: the body built for \<open>task7\<close> has no line break between the
  description and the Parent= line.
\<close>

theorem body_newline_counterexample:
  "wp_to_event utc task7 = Inr payload7 \<and>
   body payload7 \<noteq> description task7 @ [NL] @ ''Parent='' @ parent task7 @ [NL]
                     @ assignee task7 @ [NL] @ updated_at task7"
  by (simp add: task7_payload) (simp add: payload7_def task7_def NL_def)

text \<open>
  C7, amended. For every normalized task whose payload can be built, the body is the
  description, directly followed by Parent= and the parent, then a line break, the
  assignee, a line break and updated_at.
\<close>

theorem body_layout:
  "wp_to_event tz w = Inr ev \<Longrightarrow>
   body ev = description w @ ''Parent='' @ parent w @ [NL] @ assignee w @ [NL] @ updated_at w"
  by (auto simp: wp_to_event_def split: sum.splits)

theorem body_layout_witness:
  "wp_to_event utc task7 = Inr payload7 \<and>
   body payload7 = description task7 @ ''Parent='' @ parent task7 @ [NL]
                   @ assignee task7 @ [NL] @ updated_at task7"
  using body_layout [OF task7_payload] task7_payload by simp

section \<open>Tasks without a due date\<close>

text \<open>
  C8. For a raw work package without a due date whose creation timestamp is a date,
  the letter T, a time of day and a final Z: every record that normalization builds
  for it has that date as due_date and that time as due_hour, whatever its
  description holds; and when the package is not excluded and its parent and assignee
  links can be read, such a record is built and stored under its id, and the error
  list is left as it was.
\<close>

theorem due_defaults_to_creation:
  assumes "\<not> truthy (dueDate elem)"
    and "createdAt elem = d @ ''T'' @ t @ ''Z''"
    and "CHR ''T'' \<notin> set d" and "CHR ''T'' \<notin> set t"
  shows "(\<forall>tmp. parse_wp elem = Inr tmp \<longrightarrow> due_date tmp = d \<and> due_hour tmp = t) \<and>
         (\<forall>p a. \<not> not_synchronized elem \<and> parent_of elem = Inr p \<and> assignee_of elem = Inr a \<longrightarrow>
            (\<exists>tmp. parse_wp elem = Inr tmp \<and> due_date tmp = d \<and> due_hour tmp = t \<and>
               parse_wp_step elem (parsed, err) = (AList.update (el_id elem) tmp parsed, err)))"
proof -
  have "split_on CHR ''T'' (createdAt elem) = [d, t @ ''Z'']"
    using assms(2-4) by (simp add: split_on_append split_on_none)
  then have due: "due_of elem = (d, t)"
    using assms(1) by (simp add: due_of_def)
  have built: "due_date tmp = d \<and> due_hour tmp = t" if "parse_wp elem = Inr tmp" for tmp
    using that due by (auto simp: parse_wp_def split: sum.splits)
  have stored: "\<exists>tmp. parse_wp elem = Inr tmp \<and> due_date tmp = d \<and> due_hour tmp = t \<and>
      parse_wp_step elem (parsed, err) = (AList.update (el_id elem) tmp parsed, err)"
    if "\<not> not_synchronized elem" "parent_of elem = Inr p" "assignee_of elem = Inr a" for p a
    using that due by (simp add: parse_wp_def parse_wp_step_def)
  from built stored show ?thesis by blast
qed

theorem due_defaults_to_creation_witness:
  "\<not> truthy (dueDate raw5) \<and>
   createdAt raw5 = ''2024-01-02'' @ ''T'' @ ''09:00:00'' @ ''Z'' \<and>
   CHR ''T'' \<notin> set ''2024-01-02'' \<and> CHR ''T'' \<notin> set ''09:00:00'' \<and>
   \<not> not_synchronized raw5 \<and>
   parent_of raw5 = Inr ''No parent'' \<and> assignee_of raw5 = Inr ''Not assigned to anyone'' \<and>
   parse_wp raw5 = Inr task5 \<and>
   due_date task5 = ''2024-01-02'' \<and> due_hour task5 = ''09:00:00'' \<and>
   parse_wp_step raw5 ([], []) = (AList.update (el_id raw5) task5 [], [])"
proof -
  have h1: "\<not> truthy (dueDate raw5)" by (simp add: raw5_def truthy_def)
  have h2: "createdAt raw5 = ''2024-01-02'' @ ''T'' @ ''09:00:00'' @ ''Z''"
    by (simp add: raw5_def)
  have h3: "CHR ''T'' \<notin> set ''2024-01-02''" by simp
  have h4: "CHR ''T'' \<notin> set ''09:00:00''" by simp
  have h5: "\<not> not_synchronized raw5" by (simp add: raw5_def wp_eval)
  have h6: "parent_of raw5 = Inr ''No parent''" by (simp add: raw5_def wp_eval)
  have h7: "assignee_of raw5 = Inr ''Not assigned to anyone''" by (simp add: raw5_def wp_eval)
  from due_defaults_to_creation [OF h1 h2 h3 h4, of "[]" "[]"] h5 h6 h7 raw5_parsed
  have "due_date task5 = ''2024-01-02'' \<and> due_hour task5 = ''09:00:00'' \<and>
        parse_wp_step raw5 ([], []) = (AList.update (el_id raw5) task5 [], [])"
    by auto
  with h1 h2 h3 h4 h5 h6 h7 raw5_parsed show ?thesis by blast
qed

section \<open>Tasks with a due date and no due hour\<close>

text \<open>
  C6, as stated, fails: \<open>raw6\<close> has a due date and a description without a dueHour
  line, and normalization stores a record for it, with the whole last line as
  due_hour, and records no error; that due_hour is not a time.
\<close>

theorem missing_due_hour_counterexample:
  "truthy (dueDate raw6) \<and>
   parse_workpackages [raw6] = ([(6, task6)], []) \<and>
   str_to_date (due_date task6) (due_hour task6) = Inl ValueError"
  by (simp add: parse_workpackages_def parse_wp_step_def raw6_sync raw6_parsed task6_no_date)
     (simp add: raw6_def truthy_def)

text \<open>
  C6, amended. For every raw work package with a due date that is not excluded and
  whose parent and assignee links can be read, normalization never fails on the due
  hour: whatever the last line of the raw description is, the task is stored under
  its id with the due date as due_date and the stripped text after the last equals
  sign of that line as due_hour, and the error list is left as it was.
\<close>

theorem due_hour_not_validated:
  assumes "truthy (dueDate elem)" and "\<not> not_synchronized elem"
    and "parent_of elem = Inr p" and "assignee_of elem = Inr a"
  shows "\<exists>tmp. parse_wp elem = Inr tmp \<and>
     due_date tmp = the (dueDate elem) \<and>
     due_hour tmp = strip (last (split_on CHR ''='' (last (split_on NL (the (el_raw elem)))))) \<and>
     parse_wp_step elem (parsed, err) = (AList.update (el_id elem) tmp parsed, err)"
  using assms by (simp add: parse_wp_def parse_wp_step_def due_of_def)

theorem due_hour_not_validated_witness:
  "truthy (dueDate raw6) \<and> \<not> not_synchronized raw6 \<and>
   parent_of raw6 = Inr ''No parent'' \<and> assignee_of raw6 = Inr ''Not assigned to anyone'' \<and>
   (\<exists>tmp. parse_wp raw6 = Inr tmp \<and>
     due_date tmp = the (dueDate raw6) \<and>
     due_hour tmp = strip (last (split_on CHR ''='' (last (split_on NL (the (el_raw raw6)))))) \<and>
     parse_wp_step raw6 ([], []) = (AList.update (el_id raw6) tmp [], []))"
proof -
  have h1: "truthy (dueDate raw6)" by (simp add: raw6_def truthy_def)
  have h3: "parent_of raw6 = Inr ''No parent''" by (simp add: raw6_def wp_eval)
  have h4: "assignee_of raw6 = Inr ''Not assigned to anyone''" by (simp add: raw6_def wp_eval)
  from due_hour_not_validated [OF h1 raw6_sync h3 h4, of "[]" "[]"] h1 raw6_sync h3 h4
  show ?thesis by blast
qed

section \<open>The wp_id of an event\<close>

text \<open>
  C9, as stated, fails: the event titled \<open>7:Write report\<close> is stored under the
  integer 7, but its wp_id field is the text \<open>7\<close>, not an integer.
\<close>

theorem wp_id_integer_counterexample:
  "parse_event gcal7 = Inr (7, event7) \<and> ev_wp_id event7 = PyStr ''7'' \<and>
   ev_wp_id event7 \<noteq> PyInt 7"
  by (simp add: gcal7_parsed) (simp add: event7_def)

text \<open>
  C9, amended. For every raw event that is normalized, the wp_id field of the record
  is the text of the first colon-separated segment of the title, and the record is
  stored in the event map under the integer that text parses to.
\<close>

theorem wp_id_is_title_segment:
  assumes "parse_event elem = Inr (k, tmp)"
  shows "\<exists>s. re_summary elem = Some s \<and>
     ev_wp_id tmp = PyStr (hd (split_on CHR '':'' s)) \<and>
     py_int (hd (split_on CHR '':'' s)) = Inr k \<and>
     parse_event_step elem (parsed, err) = (AList.update k tmp parsed, err)"
  using assms
  by (auto simp: parse_event_def parse_event_step_def key_of_def
           split: option.splits sum.splits if_splits)

theorem wp_id_is_title_segment_witness:
  "parse_event gcal7 = Inr (7, event7) \<and>
   (\<exists>s. re_summary gcal7 = Some s \<and>
     ev_wp_id event7 = PyStr (hd (split_on CHR '':'' s)) \<and>
     py_int (hd (split_on CHR '':'' s)) = Inr 7 \<and>
     parse_event_step gcal7 ([], []) = (AList.update 7 event7 [], []))"
  using wp_id_is_title_segment [OF gcal7_parsed, of "[]" "[]"] gcal7_parsed by blast

section \<open>A payload that cannot be built\<close>

text \<open>
  C2. \<open>to_create\<close> builds the payload before it enters its \<open>try\<close> block, so the
  error of \<open>wp_to_event\<close> is not caught: it leaves \<open>to_create\<close> and \<open>synchronize_wps\<close>.
  With the tasks 6 and 7 to create, where task 6 is the record normalization gives for
  \<open>raw6\<close>, whose due hour is not a time, and the payload of task 7 can be built, the
  run is left by ValueError at task 6: no error is recorded for it, the service
  receives no call, and task 7 is never attempted.
\<close>

theorem create_failure_aborts:
  "parse_workpackages [raw6] = ([(6, task6)], []) \<and>
   wp_to_event utc task6 = Inl ValueError \<and>
   wp_to_event utc task7 = Inr payload7 \<and>
   to_create_set [(6, task6), (7, task7)] [] = {6, 7} \<and>
   synchronize_wps utc ascending recorder [(6, task6), (7, task7)] [] [] =
     Inl (ValueError,
          \<lparr>to_create_err = [], to_delete_err = [], may_update_err = [],
           srv_state = [], calls = []\<rparr>)"
  by (simp add: sync_abort task7_payload parse_workpackages_def parse_wp_step_def
        raw6_sync raw6_parsed)
     (simp add: wp_to_event_def task6_no_date to_create_set_def start_run_def raw6_def)

section \<open>Updates only on drift\<close>




section \<open>Tasks that are not synchronized\<close>

text \<open>
  C5, as stated, fails: \<open>raw_marked\<close> starts with the line \<open>!!!\<close> and normalization
  gives no record and no error for it, but the calendar holds an event for its id,
  and the run issues a delete call for that event.
\<close>

theorem excluded_task_counterexample:
  "not_synchronized raw_marked \<and> el_id raw_marked = 7 \<and>
   parse_workpackages [raw_marked] = ([], []) \<and>
   synchronize_wps utc ascending recorder [] [(7, event7)] [] =
     Inr (({}, {7}, {}),
          \<lparr>to_create_err = [], to_delete_err = [None], may_update_err = [],
           srv_state = [Delete ''g7''], calls = [(7, Delete ''g7'', None)]\<rparr>)"
  by (simp add: marked_excluded raw_marked_parsed sync_marked) (simp add: raw_marked_def)

text \<open>
  C5, amended. For every raw work package whose raw description is null or whose
  first line is \<open>!!!\<close>, normalization leaves the task map and the error list as they
  were. When no other work package of the batch has its id, the id is not a key of
  the task map and is in neither to_create nor may_update, and in every run of
  \<open>synchronize_wps\<close> on that map, returned or not, every call made for the id is a
  delete call and the log agrees with the service. A delete call is made: when the
  calendar holds an event under the id and the run returns, exactly one call is made
  for the id, the deletion of that event.
\<close>

theorem excluded_task_only_deleted:
  assumes excl: "not_synchronized elem"
    and uniq: "el_id elem \<notin> el_id ` set (before @ after)"
    and wps: "wps = fst (parse_workpackages (before @ elem # after))"
    and ec: "enumerates iter (to_create_set wps evs)"
    and ed: "enumerates iter (to_delete_set wps evs)"
    and eu: "enumerates iter (may_update_set wps evs)"
    and r: "r = final_run (synchronize_wps tz iter srv wps evs s)"
  shows "parse_wp_step elem acc = acc \<and>
         parse_workpackages (before @ elem # after) = parse_workpackages (before @ after) \<and>
         map_of wps (el_id elem) = None \<and>
         el_id elem \<notin> to_create_set wps evs \<and> el_id elem \<notin> may_update_set wps evs \<and>
         list_all (\<lambda>c. is_delete (fst c)) (calls_for (el_id elem) r) \<and>
         log_agrees srv s r \<and>
         (\<forall>pe ids. map_of evs (el_id elem) = Some pe \<and>
              synchronize_wps tz iter srv wps evs s = Inr (ids, r) \<longrightarrow>
            (\<exists>out. calls_for (el_id elem) r = [(Delete (event_id pe), out)]))"
proof -
  let ?k = "el_id elem"
  let ?c = "create_loop tz srv wps (iter (to_create_set wps evs)) (start_run s)"
  have step: "parse_wp_step elem acc = acc"
    by (rule parse_wp_step_excluded [OF excl])
  have same: "parse_workpackages (before @ elem # after) = parse_workpackages (before @ after)"
    by (simp add: parse_workpackages_def parse_wp_loop_append parse_wp_step_excluded [OF excl])
  from wps same have "wps = fst (parse_wp_loop (before @ after) ([], []))"
    by (simp add: parse_workpackages_def)
  with parse_wp_loop_keys [of "before @ after" "([], [])"] uniq
  have nk: "?k \<notin> fst ` set wps" by auto
  then have none: "map_of wps ?k = None" by (simp add: map_of_eq_None_iff)
  from nk have k: "?k \<notin> to_create_set wps evs" "?k \<notin> may_update_set wps evs"
    by (auto simp: to_create_set_def may_update_set_def)
  with ec eu have ks: "?k \<notin> set (iter (to_create_set wps evs))"
    "?k \<notin> set (iter (may_update_set wps evs))"
    by (auto simp: enumerates_def)
  have c0: "calls_for ?k (run_of ?c) = []"
    using create_loop_frame [OF ks(1), of tz srv wps "start_run s"]
    by (simp add: calls_for_start)
  have dels: "list_all (\<lambda>c. is_delete (fst c)) (calls_for ?k r)"
    using final_run_cases [of tz iter srv wps evs s]
  proof (elim disjE exE conjE)
    assume "final_run (synchronize_wps tz iter srv wps evs s) = run_of ?c"
    with c0 r show ?thesis by simp
  next
    fix r1
    assume r1: "?c = Inr r1"
      and f: "final_run (synchronize_wps tz iter srv wps evs s)
         = run_of (delete_loop srv evs (iter (to_delete_set wps evs)) r1)"
    from c0 r1 have "list_all (\<lambda>c. is_delete (fst c)) (calls_for ?k r1)"
      by (simp add: run_of_def)
    from delete_loop_only_deletes [OF this] f r show ?thesis by simp
  next
    fix r1 r2
    assume r1: "?c = Inr r1"
      and r2: "delete_loop srv evs (iter (to_delete_set wps evs)) r1 = Inr r2"
      and f: "final_run (synchronize_wps tz iter srv wps evs s)
         = run_of (update_loop tz srv wps evs (iter (may_update_set wps evs)) r2)"
    from c0 r1 have "list_all (\<lambda>c. is_delete (fst c)) (calls_for ?k r1)"
      by (simp add: run_of_def)
    from delete_loop_only_deletes [OF this, of srv evs "iter (to_delete_set wps evs)"] r2
    have "list_all (\<lambda>c. is_delete (fst c)) (calls_for ?k r2)" by (simp add: run_of_def)
    with update_loop_frame [OF ks(2), of tz srv wps evs r2] f r show ?thesis by simp
  qed
  have del: "\<exists>out. calls_for ?k r = [(Delete (event_id pe), out)]"
    if pe: "map_of evs ?k = Some pe"
      and run: "synchronize_wps tz iter srv wps evs s = Inr (ids, r)" for pe ids
  proof -
    from synchronize_Inr [OF run] obtain r1 r2 where
      c: "?c = Inr r1" and
      d: "delete_loop srv evs (iter (to_delete_set wps evs)) r1 = Inr r2" and
      u: "update_loop tz srv wps evs (iter (may_update_set wps evs)) r2 = Inr r"
      by blast
    from map_of_key [OF pe] nk have "?k \<in> to_delete_set wps evs"
      by (simp add: to_delete_set_def)
    with ed have kd: "?k \<in> set (iter (to_delete_set wps evs))"
      "distinct (iter (to_delete_set wps evs))"
      by (auto simp: enumerates_def)
    from c0 c have "calls_for ?k r1 = []" by (simp add: run_of_def)
    with delete_loop_calls [OF d kd(2) kd(1) pe]
    obtain out where "calls_for ?k r2 = [(Delete (event_id pe), out)]" by auto
    with update_loop_frame [OF ks(2), of tz srv wps evs r2] u show ?thesis
      by (simp add: run_of_def)
  qed
  have "log_agrees srv s r" unfolding r by (rule final_run_log)
  with step same none k dels del show ?thesis by blast
qed

theorem excluded_task_only_deleted_witness:
  "not_synchronized raw_marked \<and>
   el_id raw_marked \<notin> el_id ` set ([] @ []) \<and>
   [] = fst (parse_workpackages ([] @ raw_marked # [])) \<and>
   enumerates ascending (to_create_set [] [(7, event7)]) \<and>
   enumerates ascending (to_delete_set [] [(7, event7)]) \<and>
   enumerates ascending (may_update_set [] [(7, event7)]) \<and>
   map_of [(7::int, event7)] (el_id raw_marked) = Some event7 \<and>
   synchronize_wps utc ascending recorder [] [(7, event7)] [] =
     Inr (({}, {7}, {}),
          \<lparr>to_create_err = [], to_delete_err = [None], may_update_err = [],
           srv_state = [Delete ''g7''], calls = [(7, Delete ''g7'', None)]\<rparr>) \<and>
   parse_wp_step raw_marked ([], []) = ([], []) \<and>
   (\<exists>out. calls_for (el_id raw_marked)
       \<lparr>to_create_err = [], to_delete_err = [None], may_update_err = [],
        srv_state = [Delete ''g7''], calls = [(7, Delete ''g7'', None)]\<rparr>
     = [(Delete (event_id event7), out)])"
proof -
  let ?r = "\<lparr>to_create_err = [], to_delete_err = [None], may_update_err = [],
     srv_state = [Delete ''g7''], calls = [(7::int, Delete ''g7'', None)]\<rparr>"
  have h2: "el_id raw_marked \<notin> el_id ` set ([] @ [])" by simp
  have h3: "[] = fst (parse_workpackages ([] @ raw_marked # []))"
    by (simp add: raw_marked_parsed)
  have ec: "enumerates ascending (to_create_set [] [(7, event7)])"
    by (rule enumerates_ascending) (simp add: to_create_set_def)
  have ed: "enumerates ascending (to_delete_set [] [(7, event7)])"
    by (rule enumerates_ascending) (simp add: to_delete_set_def)
  have eu: "enumerates ascending (may_update_set [] [(7, event7)])"
    by (rule enumerates_ascending) (simp add: may_update_set_def)
  have pe: "map_of [(7::int, event7)] (el_id raw_marked) = Some event7"
    by (simp add: raw_marked_def)
  have r: "?r = final_run (synchronize_wps utc ascending recorder [] [(7, event7)] [])"
    by (simp add: sync_marked final_run_def)
  from excluded_task_only_deleted [OF marked_excluded h2 h3 ec ed eu r, of "([], [])"]
    marked_excluded h2 h3 ec ed eu pe sync_marked
  show ?thesis by blast
qed

section \<open>The error lists\<close>



end
